theory Spec2Isabelle
  imports Main
begin

section \<open>The calculator of \<open>top150_224_basic_calculator/main.py\<close>\<close>

text \<open>
  The module evaluates an arithmetic expression with a tokenizer (a Python iterator) and
  the operator-precedence algorithm on two stacks.  A Python \<open>str\<close> is a \<open>string\<close>
  here, each \<open>char\<close> standing for the code point of the same number; a Python list used
  as a stack is a list whose top is its last element.
\<close>

subsection \<open>Exceptions and numbers\<close>

text \<open>
  The exceptions the module can raise, with the argument the source or the interpreter
  gives them where that argument is a fixed text.
\<close>

datatype exn =
    ValueError string
  | IndexError string
  | TypeError
  | ZeroDivisionError
  | OverflowError
  | StopIteration
  | AttributeError

text \<open>
  The operand stack holds Python numbers.  Integers are unbounded and exact.  Every
  number that is not an \<open>int\<close> (a \<open>float\<close>, or the \<open>complex\<close> that a negative float
  raised to a fractional power gives) is a value of the type parameter \<open>'f\<close>.
\<close>

datatype 'f number = IntV int | FloatV 'f

datatype arith = Add | Sub | Mul | TrueDiv | Pow

text \<open>
  Python's floating-point arithmetic is not part of the module.  It is a parameter:
  \<open>fa op a b\<close> is the outcome of \<open>a op b\<close> whenever Python computes it in floating
  point, either a non-integer result or the exception raised (\<open>OverflowError\<close>,
  \<open>ZeroDivisionError\<close>).
\<close>

type_synonym 'f float_arith = "arith \<Rightarrow> 'f number \<Rightarrow> 'f number \<Rightarrow> exn + 'f"

definition in_float :: "'f float_arith \<Rightarrow> arith \<Rightarrow> 'f number \<Rightarrow> 'f number \<Rightarrow> exn + 'f number" where
  "in_float fa op a b = (case fa op a b of Inl e \<Rightarrow> Inl e | Inr x \<Rightarrow> Inr (FloatV x))"

text \<open>
  The five binary operations of the lambdas \<open>a+b\<close>, \<open>a-b\<close>, \<open>a*b\<close>, \<open>a/b\<close>, \<open>a**b\<close>.
  On two integers \<open>+\<close>, \<open>-\<close>, \<open>*\<close> are exact; \<open>/\<close> raises on a zero divisor and otherwise
  is a float; \<open>**\<close> is exact for an exponent that is not negative, raises on zero to a
  negative power and otherwise is a float.  With a non-integer operand the operation
  is floating point.
\<close>

fun py_arith :: "'f float_arith \<Rightarrow> arith \<Rightarrow> 'f number \<Rightarrow> 'f number \<Rightarrow> exn + 'f number" where
  "py_arith fa Add (IntV x) (IntV y) = Inr (IntV (x + y))"
| "py_arith fa Sub (IntV x) (IntV y) = Inr (IntV (x - y))"
| "py_arith fa Mul (IntV x) (IntV y) = Inr (IntV (x * y))"
| "py_arith fa TrueDiv (IntV x) (IntV y) =
     (if y = 0 then Inl ZeroDivisionError else in_float fa TrueDiv (IntV x) (IntV y))"
| "py_arith fa Pow (IntV x) (IntV y) =
     (if 0 \<le> y then Inr (IntV (x ^ nat y))
      else if x = 0 then Inl ZeroDivisionError
      else in_float fa Pow (IntV x) (IntV y))"
| "py_arith fa op a b = in_float fa op a b"

text \<open>
  An interpretation of the parameter that keeps nothing of a float but that it is one,
  for evaluating the module on concrete inputs.
\<close>

definition some_float :: "unit float_arith" where
  "some_float op a b = Inr ()"

subsection \<open>Operators and tokens\<close>

text \<open>
  The nine \<open>Operator\<close> tuples of class \<open>Tokenizer\<close>.  They differ pairwise in a field,
  so the source's comparisons with \<open>==\<close>, \<open>!=\<close> and \<open>in\<close> are comparisons of these tags.
\<close>

datatype operator =
    OP_PLUS | OP_MINUS | OP_TIMES | OP_DIVIDE | OP_EXPONENTIATION | OP_UNARY_MINUS
  | OP_LPAREN | OP_RPAREN | NUMBER

fun symbol :: "operator \<Rightarrow> char" where
  "symbol OP_PLUS = CHR ''+''"
| "symbol OP_MINUS = CHR ''-''"
| "symbol OP_TIMES = CHR ''*''"
| "symbol OP_DIVIDE = CHR ''/''"
| "symbol OP_EXPONENTIATION = CHR ''^''"
| "symbol OP_UNARY_MINUS = CHR ''-''"
| "symbol OP_LPAREN = CHR ''(''"
| "symbol OP_RPAREN = CHR '')''"
| "symbol NUMBER = CHR ''1''"

fun left_assoc :: "operator \<Rightarrow> bool" where
  "left_assoc OP_PLUS = True"
| "left_assoc OP_MINUS = True"
| "left_assoc OP_TIMES = True"
| "left_assoc OP_DIVIDE = True"
| "left_assoc OP_EXPONENTIATION = False"
| "left_assoc OP_UNARY_MINUS = True"
| "left_assoc OP_LPAREN = False"
| "left_assoc OP_RPAREN = False"
| "left_assoc NUMBER = False"

fun precedence :: "operator \<Rightarrow> nat" where
  "precedence OP_PLUS = 1"
| "precedence OP_MINUS = 1"
| "precedence OP_TIMES = 2"
| "precedence OP_DIVIDE = 2"
| "precedence OP_EXPONENTIATION = 3"
| "precedence OP_UNARY_MINUS = 4"
| "precedence OP_LPAREN = 0"
| "precedence OP_RPAREN = 0"
| "precedence NUMBER = 0"

text \<open>The field \<open>calc\<close>; it is \<open>None\<close> for the parentheses and for \<open>NUMBER\<close>.\<close>

fun calc :: "'f float_arith \<Rightarrow> operator \<Rightarrow> ('f number \<Rightarrow> 'f number \<Rightarrow> exn + 'f number) option" where
  "calc fa OP_PLUS = Some (\<lambda>a b. py_arith fa Add a b)"
| "calc fa OP_MINUS = Some (\<lambda>a b. py_arith fa Sub a b)"
| "calc fa OP_TIMES = Some (\<lambda>a b. py_arith fa Mul a b)"
| "calc fa OP_DIVIDE = Some (\<lambda>a b. py_arith fa TrueDiv a b)"
| "calc fa OP_EXPONENTIATION = Some (\<lambda>a b. py_arith fa Pow a b)"
| "calc fa OP_UNARY_MINUS = Some (\<lambda>_ b. py_arith fa Sub (IntV 0) b)"
| "calc fa OP_LPAREN = None"
| "calc fa OP_RPAREN = None"
| "calc fa NUMBER = None"

definition ARITHMETIC_OPERATORS :: "operator list" where
  "ARITHMETIC_OPERATORS = [OP_PLUS, OP_MINUS, OP_TIMES, OP_DIVIDE, OP_EXPONENTIATION]"

record token =
  token_type :: operator
  tvalue :: string

definition Token :: "operator \<Rightarrow> string \<Rightarrow> token" where
  "Token ty v = \<lparr>token_type = ty, tvalue = v\<rparr>"

subsection \<open>The tokenizer\<close>

text \<open>
  \<open>str.isnumeric\<close> on the code points below 256: the ten decimal digits, the
  superscripts two, three and one, and the fractions one quarter, one half and three
  quarters.
\<close>

definition isnumeric :: "char \<Rightarrow> bool" where
  "isnumeric c \<longleftrightarrow>
     (let n = (of_char c :: nat)
      in (48 \<le> n \<and> n \<le> 57) \<or> n = 178 \<or> n = 179 \<or> n = 185 \<or> n = 188 \<or> n = 189 \<or> n = 190)"

text \<open>
  A \<open>Tokenizer\<close> object holds the expression; \<open>__iter__\<close> creates the three attributes
  of a scan, which do not exist before.
\<close>

record scan =
  iter_index :: nat
  number_str :: string
  prev_token :: "token option"

record tokenizer =
  expr :: string
  cursor :: "scan option"

definition Tokenizer :: "string \<Rightarrow> tokenizer" where
  "Tokenizer e = \<lparr>expr = e, cursor = None\<rparr>"

definition tokenizer_iter :: "tokenizer \<Rightarrow> tokenizer" where
  "tokenizer_iter tk = tk\<lparr>cursor := Some \<lparr>iter_index = 0, number_str = [], prev_token = None\<rparr>\<rparr>"

text \<open>
  The condition under which \<open>-\<close> is the unary operator: no token emitted yet, or the
  last one neither a number nor a right parenthesis.
\<close>

definition unary_position :: "token option \<Rightarrow> bool" where
  "unary_position p \<longleftrightarrow>
     (case p of None \<Rightarrow> True | Some t \<Rightarrow> token_type t \<notin> set [NUMBER, OP_RPAREN])"

text \<open>
  The body of \<open>__next__\<close> on the attributes of the scan: the next token or the
  exception raised, with the attributes as the call leaves them.
\<close>

function next_loop :: "string \<Rightarrow> scan \<Rightarrow> (exn + token) \<times> scan" where
  "next_loop e sc =
     (if iter_index sc < length e then
        (if \<not> isnumeric (e ! iter_index sc) \<and> number_str sc \<noteq> [] then
           (Inr (Token NUMBER (number_str sc)),
            sc\<lparr>number_str := [], prev_token := Some (Token NUMBER (number_str sc))\<rparr>)
         else if isnumeric (e ! iter_index sc) then
           next_loop e (sc\<lparr>number_str := number_str sc @ [e ! iter_index sc],
                            iter_index := iter_index sc + 1\<rparr>)
         else if e ! iter_index sc = CHR '' '' then
           next_loop e (sc\<lparr>iter_index := iter_index sc + 1\<rparr>)
         else if e ! iter_index sc = symbol OP_UNARY_MINUS \<and> unary_position (prev_token sc) then
           (Inr (Token OP_UNARY_MINUS [e ! iter_index sc]),
            sc\<lparr>iter_index := iter_index sc + 1,
               prev_token := Some (Token OP_UNARY_MINUS [e ! iter_index sc])\<rparr>)
         else
           (case find (\<lambda>op. e ! iter_index sc = symbol op) ARITHMETIC_OPERATORS of
              Some op \<Rightarrow>
                (Inr (Token op [e ! iter_index sc]),
                 sc\<lparr>iter_index := iter_index sc + 1,
                    prev_token := Some (Token op [e ! iter_index sc])\<rparr>)
            | None \<Rightarrow>
                (if e ! iter_index sc = symbol OP_LPAREN then
                   (Inr (Token OP_LPAREN [e ! iter_index sc]),
                    sc\<lparr>iter_index := iter_index sc + 1,
                       prev_token := Some (Token OP_LPAREN [e ! iter_index sc])\<rparr>)
                 else if e ! iter_index sc = symbol OP_RPAREN then
                   (Inr (Token OP_RPAREN [e ! iter_index sc]),
                    sc\<lparr>iter_index := iter_index sc + 1,
                       prev_token := Some (Token OP_RPAREN [e ! iter_index sc])\<rparr>)
                 else (Inl (ValueError [e ! iter_index sc]), sc))))
      else if number_str sc \<noteq> [] then
        (Inr (Token NUMBER (number_str sc)),
         sc\<lparr>number_str := [], prev_token := Some (Token NUMBER (number_str sc))\<rparr>)
      else (Inl StopIteration, sc))"
  by pat_completeness auto
termination
  by (relation "measure (\<lambda>(e, sc). length e - iter_index sc)") auto

declare next_loop.simps [simp del]

definition tokenizer_next :: "tokenizer \<Rightarrow> (exn + token) \<times> tokenizer" where
  "tokenizer_next tk =
     (case cursor tk of
        None \<Rightarrow> (Inl AttributeError, tk)
      | Some sc \<Rightarrow> (case next_loop (expr tk) sc of (r, sc') \<Rightarrow> (r, tk\<lparr>cursor := Some sc'\<rparr>)))"

subsection \<open>Integer literals\<close>

text \<open>
  \<open>int(s, 10)\<close> on a string of numeric characters: the decimal value when every
  character is a decimal digit, \<open>ValueError\<close> otherwise (a superscript or a fraction is
  numeric and not decimal).  Integers are unbounded; the limit that an interpreter
  may be configured to put on the number of digits of such a string is not modelled.
\<close>

definition isdecimal :: "char \<Rightarrow> bool" where
  "isdecimal c \<longleftrightarrow> 48 \<le> (of_char c :: nat) \<and> (of_char c :: nat) \<le> 57"

definition decimal :: "string \<Rightarrow> int" where
  "decimal s = foldl (\<lambda>a c. 10 * a + (int (of_char c) - 48)) 0 s"

definition py_int :: "string \<Rightarrow> exn + int" where
  "py_int s =
     (if s \<noteq> [] \<and> list_all isdecimal s then Inr (decimal s)
      else Inl (ValueError (''invalid literal for int() with base 10: '' @ [CHR 0x27] @ s @ [CHR 0x27])))"

subsection \<open>The operand stack\<close>

text \<open>What \<open>OutputStack.append\<close> can be given: an \<open>int\<close>, an \<open>Operator\<close>, anything else.\<close>

datatype pushed = PInt int | POp operator | POther

definition OutputStack_append :: "'f float_arith \<Rightarrow> pushed \<Rightarrow> 'f number list \<Rightarrow> exn + 'f number list" where
  "OutputStack_append fa v stack =
     (case v of
        PInt n \<Rightarrow> Inr (stack @ [IntV n])
      | POther \<Rightarrow> Inl (ValueError ''Expected an operator'')
      | POp op \<Rightarrow>
          (if op = OP_UNARY_MINUS then
             (if stack = [] then Inl (IndexError ''pop from empty list'')
              else (case calc fa op of
                      None \<Rightarrow> Inl TypeError
                    | Some f \<Rightarrow>
                        (case f (IntV 0) (last stack) of
                           Inl e \<Rightarrow> Inl e
                         | Inr r \<Rightarrow> Inr (butlast stack @ [r]))))
           else if stack = [] then Inl (IndexError ''pop from empty list'')
           else if butlast stack = [] then Inl (IndexError ''pop from empty list'')
           else (case calc fa op of
                   None \<Rightarrow> Inl TypeError
                 | Some f \<Rightarrow>
                     (case f (last (butlast stack)) (last stack) of
                        Inl e \<Rightarrow> Inl e
                      | Inr r \<Rightarrow> Inr (butlast (butlast stack) @ [r])))))"

definition OutputStack_result :: "'f number list \<Rightarrow> exn + 'f number" where
  "OutputStack_result stack =
     (if stack = [] then Inl (IndexError ''list index out of range'') else Inr (last stack))"


subsection \<open>\<open>Solution.calculate\<close>\<close>

text \<open>
  The inner \<open>while\<close> loop for an operator token \<open>t\<close>: operators on top of the operator
  stack that bind tighter than \<open>t\<close>, or as tight when both are left-associative, are
  popped and applied to the operand stack.
\<close>

function operator_loop ::
  "'f float_arith \<Rightarrow> operator \<Rightarrow> 'f number list \<Rightarrow> operator list \<Rightarrow> exn + 'f number list \<times> operator list" where
  "operator_loop fa t out ops =
     (if length ops > 0 \<and> last ops \<noteq> OP_LPAREN \<and>
         (precedence (last ops) > precedence t \<or>
          (precedence (last ops) = precedence t \<and> left_assoc (last ops) \<and> left_assoc t))
      then (case OutputStack_append fa (POp (last ops)) out of
              Inl e \<Rightarrow> Inl e
            | Inr out' \<Rightarrow> operator_loop fa t out' (butlast ops))
      else Inr (out, ops))"
  by pat_completeness auto
termination
  by (relation "measure (\<lambda>(fa, t, out, ops). length ops)") auto

declare operator_loop.simps [simp del]

text \<open>
  The \<open>while\<close> loop for a right parenthesis.  Its condition reads \<open>operator_stack[-1]\<close>,
  which raises on the empty list.
\<close>

function rparen_loop ::
  "'f float_arith \<Rightarrow> 'f number list \<Rightarrow> operator list \<Rightarrow> exn + 'f number list \<times> operator list" where
  "rparen_loop fa out ops =
     (if ops = [] then Inl (IndexError ''list index out of range'')
      else if last ops \<noteq> OP_LPAREN then
        (case OutputStack_append fa (POp (last ops)) out of
           Inl e \<Rightarrow> Inl e
         | Inr out' \<Rightarrow> rparen_loop fa out' (butlast ops))
      else Inr (out, ops))"
  by pat_completeness auto
termination
  by (relation "measure (\<lambda>(fa, out, ops). length ops)") auto

declare rparen_loop.simps [simp del]

text \<open>The body of the \<open>for\<close> loop: one token against the two stacks.\<close>

definition for_body ::
  "'f float_arith \<Rightarrow> token \<Rightarrow> 'f number list \<times> operator list \<Rightarrow> exn + 'f number list \<times> operator list" where
  "for_body fa tok st =
     (case st of (out, ops) \<Rightarrow>
        if token_type tok = NUMBER then
          (case py_int (tvalue tok) of
             Inl e \<Rightarrow> Inl e
           | Inr n \<Rightarrow>
               (case OutputStack_append fa (PInt n) out of
                  Inl e \<Rightarrow> Inl e
                | Inr out' \<Rightarrow> Inr (out', ops)))
        else if token_type tok \<in> set (ARITHMETIC_OPERATORS @ [OP_UNARY_MINUS]) then
          (case operator_loop fa (token_type tok) out ops of
             Inl e \<Rightarrow> Inl e
           | Inr (out', ops') \<Rightarrow> Inr (out', ops' @ [token_type tok]))
        else if token_type tok = OP_LPAREN then Inr (out, ops @ [OP_LPAREN])
        else if token_type tok = OP_RPAREN then
          (if length ops = 0 then Inl (ValueError ''mismatched parentheses'')
           else
             (case rparen_loop fa out ops of
                Inl e \<Rightarrow> Inl e
              | Inr (out', ops') \<Rightarrow>
                  if ops' = [] then Inl (IndexError ''list index out of range'')
                  else if last ops' \<noteq> OP_LPAREN then Inl (ValueError ''mismatched parentheses'')
                  else Inr (out', butlast ops')))
        else Inr (out, ops))"

text \<open>
  The \<open>for\<close> statement over the tokenizer: \<open>__next__\<close> is called until it raises;
  \<open>StopIteration\<close> ends the loop, any other exception leaves \<open>calculate\<close>.
\<close>

definition scan_size :: "string \<Rightarrow> scan \<Rightarrow> nat" where
  "scan_size e sc = 2 * (length e - iter_index sc) + (if number_str sc = [] then 0 else 1)"

lemma next_loop_size:
  "next_loop e sc = (Inr tok, sc') \<Longrightarrow> scan_size e sc' < scan_size e sc"
proof (induction e sc rule: next_loop.induct)
  case (1 e sc)
  show ?case
  proof (cases "iter_index sc < length e")
    case False
    with "1.prems" show ?thesis
      by (auto simp: next_loop.simps [of e sc] scan_size_def split: if_splits)
  next
    case inside: True
    show ?thesis
    proof (cases "isnumeric (e ! iter_index sc)")
      case True
      let ?sc = "sc\<lparr>number_str := number_str sc @ [e ! iter_index sc], iter_index := iter_index sc + 1\<rparr>"
      from "1.prems" inside True have "next_loop e ?sc = (Inr tok, sc')"
        by (simp add: next_loop.simps [of e sc])
      with "1.IH"(1) inside True have "scan_size e sc' < scan_size e ?sc" by simp
      with inside show ?thesis by (auto simp: scan_size_def)
    next
      case nonnum: False
      show ?thesis
      proof (cases "number_str sc \<noteq> []")
        case True
        with "1.prems" inside nonnum show ?thesis
          by (auto simp: next_loop.simps [of e sc] scan_size_def)
      next
        case emptybuf: False
        show ?thesis
        proof (cases "e ! iter_index sc = CHR '' ''")
          case True
          let ?sc = "sc\<lparr>iter_index := iter_index sc + 1\<rparr>"
          from "1.prems" inside nonnum emptybuf True have "next_loop e ?sc = (Inr tok, sc')"
            by (simp add: next_loop.simps [of e sc])
          with "1.IH"(2) inside nonnum emptybuf True have "scan_size e sc' < scan_size e ?sc"
            by simp
          with inside show ?thesis by (auto simp: scan_size_def)
        next
          case False
          with "1.prems" inside nonnum emptybuf show ?thesis
            by (auto simp: next_loop.simps [of e sc] scan_size_def
                     split: if_splits option.splits)
        qed
      qed
    qed
  qed
qed

definition tokenizer_size :: "tokenizer \<Rightarrow> nat" where
  "tokenizer_size tk = (case cursor tk of None \<Rightarrow> 0 | Some sc \<Rightarrow> scan_size (expr tk) sc)"

lemma tokenizer_next_size:
  "tokenizer_next tk = (Inr tok, tk') \<Longrightarrow> tokenizer_size tk' < tokenizer_size tk"
  by (auto simp: tokenizer_next_def tokenizer_size_def split: option.splits prod.splits
           dest: next_loop_size)

function for_loop ::
  "'f float_arith \<Rightarrow> tokenizer \<Rightarrow> 'f number list \<times> operator list \<Rightarrow> exn + 'f number list \<times> operator list" where
  "for_loop fa tk st =
     (case tokenizer_next tk of
        (Inl e, tk') \<Rightarrow> if e = StopIteration then Inr st else Inl e
      | (Inr tok, tk') \<Rightarrow>
          (case for_body fa tok st of
             Inl e \<Rightarrow> Inl e
           | Inr st' \<Rightarrow> for_loop fa tk' st'))"
  by pat_completeness auto
termination
  by (relation "measure (\<lambda>(fa, tk, st). tokenizer_size tk)")
     (auto dest: tokenizer_next_size [OF sym])

declare for_loop.simps [simp del]

text \<open>The last \<open>while\<close> loop: the operators left on the operator stack.\<close>

function final_loop :: "'f float_arith \<Rightarrow> 'f number list \<Rightarrow> operator list \<Rightarrow> exn + 'f number list" where
  "final_loop fa out ops =
     (if length ops > 0 then
        (if last ops = OP_LPAREN then Inl (ValueError ''mismatched parentheses'')
         else (case OutputStack_append fa (POp (last ops)) out of
                 Inl e \<Rightarrow> Inl e
               | Inr out' \<Rightarrow> final_loop fa out' (butlast ops)))
      else Inr out)"
  by pat_completeness auto
termination
  by (relation "measure (\<lambda>(fa, out, ops). length ops)") auto

declare final_loop.simps [simp del]

text \<open>
  The operand stack that \<open>calculate\<close> reads its result from: the state after the \<open>for\<close>
  loop and the last \<open>while\<close> loop.
\<close>

definition final_stack :: "'f float_arith \<Rightarrow> string \<Rightarrow> exn + 'f number list" where
  "final_stack fa s =
     (case for_loop fa (tokenizer_iter (Tokenizer s)) ([], []) of
        Inl e \<Rightarrow> Inl e
      | Inr (out, ops) \<Rightarrow> final_loop fa out ops)"

definition calculate :: "'f float_arith \<Rightarrow> string \<Rightarrow> exn + 'f number" where
  "calculate fa s =
     (case final_stack fa s of
        Inl e \<Rightarrow> Inl e
      | Inr out \<Rightarrow> OutputStack_result out)"

subsection \<open>Iterating a tokenizer\<close>

text \<open>
  What a \<open>for\<close> statement over a tokenizer on which \<open>__iter__\<close> has run receives:
  the tokens that \<open>__next__\<close> returns, the exception that ends the iteration when it
  is not \<open>StopIteration\<close>, and the object as the iteration leaves it.
\<close>

function iterate :: "tokenizer \<Rightarrow> token list \<times> exn option \<times> tokenizer" where
  "iterate tk =
     (case tokenizer_next tk of
        (Inl e, tk') \<Rightarrow> ([], if e = StopIteration then None else Some e, tk')
      | (Inr tok, tk') \<Rightarrow> (case iterate tk' of (toks, r, tk'') \<Rightarrow> (tok # toks, r, tk'')))"
  by pat_completeness auto
termination
  by (relation "measure tokenizer_size") (auto dest: tokenizer_next_size [OF sym])

declare iterate.simps [simp del]

section \<open>Expressions\<close>

text \<open>
  The syntax trees of the expressions the calculator is meant for: integer literals,
  unary minus, the five binary operators, parentheses, and blanks around any
  subexpression.  \<open>pr\<close> writes a tree as text and \<open>eval\<close> is its value, computed with
  the arithmetic of \<open>py_arith\<close>, the left operand first; unary minus is \<open>0 - operand\<close>.
\<close>

datatype expr =
    Num string
  | Neg expr
  | Bin arith expr expr
  | Paren expr
  | Pad nat expr nat

fun sym :: "arith \<Rightarrow> char" where
  "sym Add = CHR ''+''"
| "sym Sub = CHR ''-''"
| "sym Mul = CHR ''*''"
| "sym TrueDiv = CHR ''/''"
| "sym Pow = CHR ''^''"

fun pr :: "expr \<Rightarrow> string" where
  "pr (Num ds) = ds"
| "pr (Neg a) = CHR ''-'' # pr a"
| "pr (Bin op l r) = pr l @ sym op # pr r"
| "pr (Paren e) = CHR ''('' # pr e @ [CHR '')'']"
| "pr (Pad m e n) = replicate m (CHR '' '') @ pr e @ replicate n (CHR '' '')"

fun eval :: "'f float_arith \<Rightarrow> expr \<Rightarrow> exn + 'f number" where
  "eval fa (Num ds) = Inr (IntV (decimal ds))"
| "eval fa (Neg a) =
     (case eval fa a of Inl e \<Rightarrow> Inl e | Inr v \<Rightarrow> py_arith fa Sub (IntV 0) v)"
| "eval fa (Bin op l r) =
     (case eval fa l of
        Inl e \<Rightarrow> Inl e
      | Inr a \<Rightarrow> (case eval fa r of Inl e \<Rightarrow> Inl e | Inr b \<Rightarrow> py_arith fa op a b))"
| "eval fa (Paren e) = eval fa e"
| "eval fa (Pad m e n) = eval fa e"

text \<open>
  The grouping that the operator table of the module gives: unary minus binds tighter
  than \<open>^\<close>, which binds tighter than \<open>*\<close> and \<open>/\<close>, which bind tighter than \<open>+\<close> and \<open>-\<close>.
  A tree is \<open>well_formed\<close> when its text, read with these levels, groups as the tree
  does: \<open>^\<close> groups to the right, the other binary operators to the left, and a unary
  minus stands before a literal or a parenthesis.
\<close>

fun binds :: "arith \<Rightarrow> nat" where
  "binds Add = 1"
| "binds Sub = 1"
| "binds Mul = 2"
| "binds TrueDiv = 2"
| "binds Pow = 3"

fun level :: "expr \<Rightarrow> nat" where
  "level (Num ds) = 5"
| "level (Paren e) = 5"
| "level (Neg a) = 4"
| "level (Bin op l r) = binds op"
| "level (Pad m e n) = level e"

fun well_formed :: "expr \<Rightarrow> bool" where
  "well_formed (Num ds) \<longleftrightarrow> ds \<noteq> [] \<and> list_all isdecimal ds"
| "well_formed (Neg a) \<longleftrightarrow> well_formed a \<and> level a = 5"
| "well_formed (Bin op l r) \<longleftrightarrow>
     well_formed l \<and> well_formed r \<and>
     (if op = Pow then binds op < level l \<and> binds op \<le> level r
      else binds op \<le> level l \<and> binds op < level r)"
| "well_formed (Paren e) \<longleftrightarrow> well_formed e"
| "well_formed (Pad m e n) \<longleftrightarrow> well_formed e"

text \<open>
  The conventional grouping: \<open>^\<close> binds tighter than unary minus, which binds tighter
  than \<open>*\<close> and \<open>/\<close>, which bind tighter than \<open>+\<close> and \<open>-\<close>; the exponent of \<open>^\<close> may
  itself be a unary minus.  \<open>minus_on_atoms\<close> holds when every unary minus stands before
  a literal or a parenthesis.
\<close>

fun conv_binds :: "arith \<Rightarrow> nat" where
  "conv_binds Add = 1"
| "conv_binds Sub = 1"
| "conv_binds Mul = 2"
| "conv_binds TrueDiv = 2"
| "conv_binds Pow = 4"

fun conv_level :: "expr \<Rightarrow> nat" where
  "conv_level (Num ds) = 5"
| "conv_level (Paren e) = 5"
| "conv_level (Neg a) = 3"
| "conv_level (Bin op l r) = conv_binds op"
| "conv_level (Pad m e n) = conv_level e"

fun conventional :: "expr \<Rightarrow> bool" where
  "conventional (Num ds) \<longleftrightarrow> ds \<noteq> [] \<and> list_all isdecimal ds"
| "conventional (Neg a) \<longleftrightarrow> conventional a \<and> 3 \<le> conv_level a"
| "conventional (Bin op l r) \<longleftrightarrow>
     conventional l \<and> conventional r \<and>
     (if op = Pow then conv_binds op < conv_level l \<and> 3 \<le> conv_level r
      else conv_binds op \<le> conv_level l \<and> conv_binds op < conv_level r)"
| "conventional (Paren e) \<longleftrightarrow> conventional e"
| "conventional (Pad m e n) \<longleftrightarrow> conventional e"


text \<open>
  The characters the tokenizer has a rule for: numeric characters, the blank, the
  operator symbols and the parentheses.
\<close>

definition accepted :: "char \<Rightarrow> bool" where
  "accepted c \<longleftrightarrow> isnumeric c \<or> c = CHR '' '' \<or> c \<in> set ''+-*/^()''"

text \<open>
  Texts that differ only in blanks, none of them put between two numeric characters
  nor taken from between two.
\<close>

definition splits_digits :: "string \<Rightarrow> string \<Rightarrow> bool" where
  "splits_digits xs ys \<longleftrightarrow> xs \<noteq> [] \<and> isnumeric (last xs) \<and> ys \<noteq> [] \<and> isnumeric (hd ys)"

inductive respaced :: "string \<Rightarrow> string \<Rightarrow> bool" where
  same: "respaced s s"
| inserted: "respaced s (xs @ ys) \<Longrightarrow> \<not> splits_digits xs ys \<Longrightarrow> respaced s (xs @ CHR '' '' # ys)"
| removed: "respaced s (xs @ CHR '' '' # ys) \<Longrightarrow> \<not> splits_digits xs ys \<Longrightarrow> respaced s (xs @ ys)"

code_pred respaced .

section \<open>The token sequence as a function of the text\<close>

text \<open>
  The tokens of the remaining text, given the digits read so far and the last token
  emitted, together with the \<open>ValueError\<close> that stops the scan if there is one.  The
  lemmas below show that \<open>__next__\<close> produces exactly this sequence.
\<close>

definition classify :: "token option \<Rightarrow> char \<Rightarrow> operator option" where
  "classify p c =
     (if c = CHR ''-'' \<and> unary_position p then Some OP_UNARY_MINUS
      else (case find (\<lambda>op. c = symbol op) ARITHMETIC_OPERATORS of
              Some op \<Rightarrow> Some op
            | None \<Rightarrow>
                if c = CHR ''('' then Some OP_LPAREN
                else if c = CHR '')'' then Some OP_RPAREN
                else None))"

definition flushed :: "string \<Rightarrow> token option \<Rightarrow> token option" where
  "flushed buf p = (if buf = [] then p else Some (Token NUMBER buf))"

definition emit :: "token list \<Rightarrow> token list \<times> exn option \<Rightarrow> token list \<times> exn option" where
  "emit ts r = (ts @ fst r, snd r)"

definition pending :: "string \<Rightarrow> token list" where
  "pending buf = (if buf = [] then [] else [Token NUMBER buf])"

fun scan_tokens :: "string \<Rightarrow> token option \<Rightarrow> string \<Rightarrow> token list \<times> exn option" where
  "scan_tokens buf p [] = (pending buf, None)"
| "scan_tokens buf p (c # cs) =
     (if isnumeric c then scan_tokens (buf @ [c]) p cs
      else if c = CHR '' '' then emit (pending buf) (scan_tokens [] (flushed buf p) cs)
      else (case classify (flushed buf p) c of
              None \<Rightarrow> (pending buf, Some (ValueError [c]))
            | Some op \<Rightarrow> emit (pending buf @ [Token op [c]]) (scan_tokens [] (Some (Token op [c])) cs)))"

definition rest_tokens :: "string \<Rightarrow> scan \<Rightarrow> token list \<times> exn option" where
  "rest_tokens e sc = scan_tokens (number_str sc) (prev_token sc) (drop (iter_index sc) e)"

text \<open>
  The body of the \<open>for\<close> loop over a list of tokens, and what \<open>calculate\<close> does once
  the token sequence is known.
\<close>

fun run_tokens ::
  "'f float_arith \<Rightarrow> token list \<Rightarrow> 'f number list \<times> operator list \<Rightarrow> exn + 'f number list \<times> operator list" where
  "run_tokens fa [] st = Inr st"
| "run_tokens fa (t # ts) st =
     (case for_body fa t st of Inl e \<Rightarrow> Inl e | Inr st' \<Rightarrow> run_tokens fa ts st')"

definition ended :: "exn option \<Rightarrow> 'a \<Rightarrow> exn + 'a" where
  "ended r st = (case r of None \<Rightarrow> Inr st | Some e \<Rightarrow> Inl e)"

definition finish :: "'f float_arith \<Rightarrow> token list \<times> exn option \<Rightarrow> exn + 'f number" where
  "finish fa lx =
     (case run_tokens fa (fst lx) ([], []) of
        Inl e \<Rightarrow> Inl e
      | Inr st \<Rightarrow>
          (case snd lx of
             Some e \<Rightarrow> Inl e
           | None \<Rightarrow>
               (case final_loop fa (fst st) (snd st) of
                  Inl e \<Rightarrow> Inl e
                | Inr out \<Rightarrow> OutputStack_result out)))"

text \<open>
  The tokens of a tree, and the state in which they leave the two stacks: the values
  pushed and the operators still waiting, applied from the top down by \<open>apply_ops\<close>.
\<close>

fun op_of :: "arith \<Rightarrow> operator" where
  "op_of Add = OP_PLUS"
| "op_of Sub = OP_MINUS"
| "op_of Mul = OP_TIMES"
| "op_of TrueDiv = OP_DIVIDE"
| "op_of Pow = OP_EXPONENTIATION"

fun tokens_of :: "expr \<Rightarrow> token list" where
  "tokens_of (Num ds) = [Token NUMBER ds]"
| "tokens_of (Neg a) = Token OP_UNARY_MINUS ''-'' # tokens_of a"
| "tokens_of (Bin op l r) = tokens_of l @ Token (op_of op) [sym op] # tokens_of r"
| "tokens_of (Paren e) = Token OP_LPAREN ''('' # tokens_of e @ [Token OP_RPAREN '')'']"
| "tokens_of (Pad m e n) = tokens_of e"

fun apply_ops :: "'f float_arith \<Rightarrow> operator list \<Rightarrow> 'f number list \<Rightarrow> exn + 'f number list" where
  "apply_ops fa [] out = Inr out"
| "apply_ops fa (q # qs) out =
     (case OutputStack_append fa (POp q) out of
        Inl e \<Rightarrow> Inl e
      | Inr out' \<Rightarrow> apply_ops fa qs out')"

definition pops :: "operator \<Rightarrow> operator \<Rightarrow> bool" where
  "pops q t \<longleftrightarrow>
     precedence q > precedence t \<or>
     (precedence q = precedence t \<and> left_assoc q \<and> left_assoc t)"

definition is_op :: "operator \<Rightarrow> bool" where
  "is_op q \<longleftrightarrow> q \<in> set (ARITHMETIC_OPERATORS @ [OP_UNARY_MINUS])"

fun pend :: "'f float_arith \<Rightarrow> expr \<Rightarrow> exn + 'f number list \<times> operator list" where
  "pend fa (Num ds) = Inr ([IntV (decimal ds)], [])"
| "pend fa (Neg a) =
     (case pend fa a of Inl e \<Rightarrow> Inl e | Inr (vs, ps) \<Rightarrow> Inr (vs, OP_UNARY_MINUS # ps))"
| "pend fa (Bin op l r) =
     (case eval fa l of
        Inl e \<Rightarrow> Inl e
      | Inr a \<Rightarrow> (case pend fa r of Inl e \<Rightarrow> Inl e | Inr (vs, ps) \<Rightarrow> Inr (a # vs, op_of op # ps)))"
| "pend fa (Paren e) = (case eval fa e of Inl e \<Rightarrow> Inl e | Inr v \<Rightarrow> Inr ([v], []))"
| "pend fa (Pad m e n) = pend fa e"

definition admits :: "operator list \<Rightarrow> expr \<Rightarrow> bool" where
  "admits ops e \<longleftrightarrow>
     ops = [] \<or> last ops = OP_LPAREN \<or> precedence (last ops) < level e \<or>
     (last ops = OP_EXPONENTIATION \<and> level e = 3)"

section \<open>Lemmas\<close>

lemma emit_simps [simp]:
  "emit [] r = r"
  "emit ts (us, x) = (ts @ us, x)"
  "emit ts (emit us r) = emit (ts @ us) r"
  by (simp_all add: emit_def)

lemma pending_simps [simp]: "pending [] = []" "buf \<noteq> [] \<Longrightarrow> pending buf = [Token NUMBER buf]"
  by (simp_all add: pending_def)

lemma flushed_simps [simp]: "flushed [] p = p" "buf \<noteq> [] \<Longrightarrow> flushed buf p = Some (Token NUMBER buf)"
  by (simp_all add: flushed_def)

lemma lex_flush:
  "cs = [] \<or> \<not> isnumeric (hd cs) \<Longrightarrow> scan_tokens buf p cs = emit (pending buf) (scan_tokens [] (flushed buf p) cs)"
  by (cases cs) (auto simp: emit_def split: option.splits)

lemma symbol_cases:
  "classify p c = Some op \<Longrightarrow> c = symbol op"
  by (auto simp: classify_def ARITHMETIC_OPERATORS_def split: if_splits option.splits)

lemma next_loop_end:
  "\<not> iter_index sc < length e \<Longrightarrow>
   next_loop e sc =
     (if number_str sc \<noteq> [] then
        (Inr (Token NUMBER (number_str sc)),
         sc\<lparr>number_str := [], prev_token := Some (Token NUMBER (number_str sc))\<rparr>)
      else (Inl StopIteration, sc))"
  by (simp add: next_loop.simps [of e sc])

lemma next_loop_flush:
  "iter_index sc < length e \<Longrightarrow> \<not> isnumeric (e ! iter_index sc) \<Longrightarrow> number_str sc \<noteq> [] \<Longrightarrow>
   next_loop e sc =
     (Inr (Token NUMBER (number_str sc)),
      sc\<lparr>number_str := [], prev_token := Some (Token NUMBER (number_str sc))\<rparr>)"
  by (simp add: next_loop.simps [of e sc])

lemma next_loop_digit:
  "iter_index sc < length e \<Longrightarrow> isnumeric (e ! iter_index sc) \<Longrightarrow>
   next_loop e sc =
     next_loop e (sc\<lparr>number_str := number_str sc @ [e ! iter_index sc],
                      iter_index := iter_index sc + 1\<rparr>)"
  by (simp add: next_loop.simps [of e sc])

lemma next_loop_space:
  "iter_index sc < length e \<Longrightarrow> e ! iter_index sc = CHR '' '' \<Longrightarrow> number_str sc = [] \<Longrightarrow>
   next_loop e sc = next_loop e (sc\<lparr>iter_index := iter_index sc + 1\<rparr>)"
  by (simp add: next_loop.simps [of e sc] isnumeric_def)

lemma next_loop_symbol:
  "iter_index sc < length e \<Longrightarrow> \<not> isnumeric (e ! iter_index sc) \<Longrightarrow>
   e ! iter_index sc \<noteq> CHR '' '' \<Longrightarrow> number_str sc = [] \<Longrightarrow>
   next_loop e sc =
     (case classify (prev_token sc) (e ! iter_index sc) of
        None \<Rightarrow> (Inl (ValueError [e ! iter_index sc]), sc)
      | Some op \<Rightarrow>
          (Inr (Token op [e ! iter_index sc]),
           sc\<lparr>iter_index := iter_index sc + 1,
              prev_token := Some (Token op [e ! iter_index sc])\<rparr>))"
  by (simp add: next_loop.simps [of e sc] classify_def split: option.splits)

lemma next_loop_lex:
  "iter_index sc \<le> length e \<Longrightarrow>
   (\<forall>tok sc'. next_loop e sc = (Inr tok, sc') \<longrightarrow>
       iter_index sc' \<le> length e \<and> rest_tokens e sc = emit [tok] (rest_tokens e sc')) \<and>
   (\<forall>err sc'. next_loop e sc = (Inl err, sc') \<longrightarrow>
       rest_tokens e sc = ([], if err = StopIteration then None else Some err))"
proof (induction e sc rule: next_loop.induct)
  case (1 e sc)
  show ?case
  proof (cases "iter_index sc < length e")
    case False
    with "1.prems" show ?thesis
      by (auto simp: next_loop_end rest_tokens_def)
  next
    case inside: True
    then have dr: "drop (iter_index sc) e = e ! iter_index sc # drop (Suc (iter_index sc)) e"
      by (simp add: Cons_nth_drop_Suc)
    show ?thesis
    proof (cases "isnumeric (e ! iter_index sc)")
      case True
      with "1.IH"(1) inside show ?thesis
        by (simp add: next_loop_digit rest_tokens_def dr)
    next
      case nonnum: False
      show ?thesis
      proof (cases "number_str sc \<noteq> []")
        case True
        with inside nonnum show ?thesis
          using lex_flush [of "drop (iter_index sc) e" "number_str sc" "prev_token sc"]
          by (simp add: next_loop_flush rest_tokens_def dr)
      next
        case emptybuf: False
        show ?thesis
        proof (cases "e ! iter_index sc = CHR '' ''")
          case True
          with "1.IH"(2) inside nonnum emptybuf show ?thesis
            by (simp add: next_loop_space rest_tokens_def dr)
        next
          case False
          with inside nonnum emptybuf show ?thesis
            by (auto simp: next_loop_symbol rest_tokens_def dr split: option.splits)
        qed
      qed
    qed
  qed
qed

lemma for_loop_lex:
  "cursor tk = Some sc \<Longrightarrow> iter_index sc \<le> length (expr tk) \<Longrightarrow>
   for_loop fa tk st =
     (case run_tokens fa (fst (rest_tokens (expr tk) sc)) st of
        Inl e \<Rightarrow> Inl e
      | Inr st' \<Rightarrow> ended (snd (rest_tokens (expr tk) sc)) st')"
proof (induction fa tk st arbitrary: sc rule: for_loop.induct)
  case (1 fa tk st)
  obtain r sc' where nl: "next_loop (expr tk) sc = (r, sc')" by (cases "next_loop (expr tk) sc")
  with "1.prems" have tn: "tokenizer_next tk = (r, tk\<lparr>cursor := Some sc'\<rparr>)"
    by (simp add: tokenizer_next_def)
  show ?case
  proof (cases r)
    case (Inl err)
    with nl "1.prems" next_loop_lex [of sc "expr tk"]
    have "rest_tokens (expr tk) sc = ([], if err = StopIteration then None else Some err)" by simp
    with tn Inl show ?thesis
      by (simp add: for_loop.simps [of fa tk st] ended_def)
  next
    case (Inr tok)
    with nl "1.prems" next_loop_lex [of sc "expr tk"]
    have le: "iter_index sc' \<le> length (expr tk)"
      and eq: "rest_tokens (expr tk) sc = emit [tok] (rest_tokens (expr tk) sc')" by simp_all
    show ?thesis
    proof (cases "for_body fa tok st")
      case (Inl err)
      with tn Inr eq show ?thesis
        by (simp add: for_loop.simps [of fa tk st] emit_def)
    next
      case st': (Inr st')
      have "for_loop fa (tk\<lparr>cursor := Some sc'\<rparr>) st' =
              (case run_tokens fa (fst (rest_tokens (expr tk) sc')) st' of
                 Inl e \<Rightarrow> Inl e
               | Inr st'' \<Rightarrow> ended (snd (rest_tokens (expr tk) sc')) st'')"
        using "1.IH" [OF tn [symmetric] Inr st', of sc'] le by (simp cong: sum.case_cong)
      with tn Inr eq st' show ?thesis
        by (simp add: for_loop.simps [of fa tk st] emit_def cong: sum.case_cong)
    qed
  qed
qed

lemma iterate_lex:
  "cursor tk = Some sc \<Longrightarrow> iter_index sc \<le> length (expr tk) \<Longrightarrow>
   \<exists>sc'. iterate tk = (fst (rest_tokens (expr tk) sc), snd (rest_tokens (expr tk) sc), tk\<lparr>cursor := Some sc'\<rparr>)"
proof (induction tk arbitrary: sc rule: iterate.induct)
  case (1 tk)
  obtain r sc' where nl: "next_loop (expr tk) sc = (r, sc')" by (cases "next_loop (expr tk) sc")
  with "1.prems" have tn: "tokenizer_next tk = (r, tk\<lparr>cursor := Some sc'\<rparr>)"
    by (simp add: tokenizer_next_def)
  show ?case
  proof (cases r)
    case (Inl err)
    with nl "1.prems" next_loop_lex [of sc "expr tk"]
    have "rest_tokens (expr tk) sc = ([], if err = StopIteration then None else Some err)" by simp
    with tn Inl show ?thesis
      by (auto simp: iterate.simps [of tk])
  next
    case (Inr tok)
    with nl "1.prems" next_loop_lex [of sc "expr tk"]
    have le: "iter_index sc' \<le> length (expr tk)"
      and eq: "rest_tokens (expr tk) sc = emit [tok] (rest_tokens (expr tk) sc')" by simp_all
    obtain sc'' where "iterate (tk\<lparr>cursor := Some sc'\<rparr>) =
        (fst (rest_tokens (expr tk) sc'), snd (rest_tokens (expr tk) sc'), tk\<lparr>cursor := Some sc''\<rparr>)"
      using "1.IH" [OF tn [symmetric] Inr, of sc'] le by auto
    with tn Inr eq show ?thesis
      by (auto simp: iterate.simps [of tk] emit_def)
  qed
qed

lemma isdecimal_isnumeric: "isdecimal c \<Longrightarrow> isnumeric c"
  by (simp add: isdecimal_def isnumeric_def)

lemma lex_digits: "list_all isnumeric ds \<Longrightarrow> scan_tokens buf p (ds @ cs) = scan_tokens (buf @ ds) p cs"
  by (induction ds arbitrary: buf) simp_all

lemma lex_spaces: "scan_tokens [] p (replicate m (CHR '' '') @ cs) = scan_tokens [] p cs"
  by (induction m) (simp_all add: isnumeric_def)

lemma tokens_of_last:
  "well_formed e \<Longrightarrow> tokens_of e \<noteq> [] \<and> token_type (last (tokens_of e)) \<in> {NUMBER, OP_RPAREN}"
  by (induction e) (simp_all add: Token_def)

lemma not_unary_after:
  "well_formed e \<Longrightarrow> \<not> unary_position (Some (last (tokens_of e)))"
  using tokens_of_last [of e] by (auto simp: unary_position_def)

lemma sym_not_numeric [simp]: "\<not> isnumeric (sym op)"
  by (cases op) (simp_all add: isnumeric_def)

lemma classify_sym:
  "\<not> unary_position p \<Longrightarrow> classify p (sym op) = Some (op_of op)"
  by (cases op) (simp_all add: classify_def ARITHMETIC_OPERATORS_def)

lemma classify_unary: "unary_position p \<Longrightarrow> classify p (CHR ''-'') = Some OP_UNARY_MINUS"
  by (simp add: classify_def)

lemma classify_parens [simp]:
  "classify p (CHR ''('') = Some OP_LPAREN" "classify p (CHR '')'') = Some OP_RPAREN"
  by (simp_all add: classify_def ARITHMETIC_OPERATORS_def)

lemma unary_after_operator [simp]:
  "unary_position (Some (Token (op_of op) s))"
  "unary_position (Some (Token OP_UNARY_MINUS s))"
  "unary_position (Some (Token OP_LPAREN s))"
  "unary_position None"
  by (cases op; simp add: unary_position_def Token_def)+

lemma not_numeric [simp]:
  "\<not> isnumeric (CHR ''-'')" "\<not> isnumeric (CHR ''('')" "\<not> isnumeric (CHR '')'')"
  "\<not> isnumeric (CHR '' '')"
  by (simp_all add: isnumeric_def)

lemma lex_pr:
  "well_formed e \<Longrightarrow> unary_position p \<Longrightarrow> cs = [] \<or> \<not> isnumeric (hd cs) \<Longrightarrow>
   scan_tokens [] p (pr e @ cs) = emit (tokens_of e) (scan_tokens [] (Some (last (tokens_of e))) cs)"
proof (induction e arbitrary: p cs)
  case (Num ds)
  then have "list_all isnumeric ds"
    by (auto simp: list_all_iff isdecimal_isnumeric)
  with Num show ?case
    using lex_flush [of cs ds p] by (simp add: lex_digits)
next
  case (Neg a)
  from Neg.prems have "tokens_of a \<noteq> []" using tokens_of_last [of a] by simp
  with Neg show ?case
    by (simp add: classify_unary)
next
  case (Bin op l r)
  have l: "scan_tokens [] p (pr l @ sym op # pr r @ cs) =
        emit (tokens_of l) (scan_tokens [] (Some (last (tokens_of l))) (sym op # pr r @ cs))"
    using Bin.IH(1) [of p "sym op # pr r @ cs"] Bin.prems by simp
  have r: "scan_tokens [] (Some (Token (op_of op) [sym op])) (pr r @ cs) =
        emit (tokens_of r) (scan_tokens [] (Some (last (tokens_of r))) cs)"
    using Bin.IH(2) [of "Some (Token (op_of op) [sym op])" cs] Bin.prems by simp
  have sp: "sym op \<noteq> CHR '' ''" by (cases op) simp_all
  from Bin.prems have "tokens_of r \<noteq> []" using tokens_of_last [of r] by simp
  with l r sp Bin.prems show ?case
    by (simp add: classify_sym not_unary_after)
next
  case (Paren e)
  have "scan_tokens [] (Some (Token OP_LPAREN ''('')) (pr e @ CHR '')'' # cs) =
        emit (tokens_of e) (scan_tokens [] (Some (last (tokens_of e))) (CHR '')'' # cs))"
    using Paren.IH [of "Some (Token OP_LPAREN ''('')" "CHR '')'' # cs"] Paren.prems
    by simp
  then show ?case
    by simp
next
  case (Pad m e n)
  have "scan_tokens [] p (pr e @ replicate n (CHR '' '') @ cs) =
        emit (tokens_of e) (scan_tokens [] (Some (last (tokens_of e))) (replicate n (CHR '' '') @ cs))"
    using Pad.IH [of p "replicate n (CHR '' '') @ cs"] Pad.prems
    by (cases n) auto
  then show ?case
    by (simp add: lex_spaces)
qed

lemma apply_ops_append:
  "apply_ops fa (xs @ ys) out =
     (case apply_ops fa xs out of Inl e \<Rightarrow> Inl e | Inr out' \<Rightarrow> apply_ops fa ys out')"
  by (induction xs arbitrary: out) (simp_all split: sum.splits)

lemma operator_loop_stop:
  "ops = [] \<or> last ops = OP_LPAREN \<or> \<not> pops (last ops) t \<Longrightarrow>
   operator_loop fa t out ops = Inr (out, ops)"
  by (auto simp: operator_loop.simps [of fa t out ops] pops_def)

lemma operator_loop_pops:
  "\<forall>q\<in>set ps. q \<noteq> OP_LPAREN \<and> pops q t \<Longrightarrow>
   operator_loop fa t out (ops @ ps) =
     (case apply_ops fa (rev ps) out of
        Inl e \<Rightarrow> Inl e
      | Inr out' \<Rightarrow> operator_loop fa t out' ops)"
proof (induction ps arbitrary: out rule: rev_induct)
  case Nil
  show ?case by simp
next
  case (snoc q ps)
  then have step: "operator_loop fa t out (ops @ ps @ [q]) =
      (case OutputStack_append fa (POp q) out of
         Inl e \<Rightarrow> Inl e
       | Inr out' \<Rightarrow> operator_loop fa t out' (ops @ ps))"
    using operator_loop.simps [of fa t out "ops @ ps @ [q]"]
    by (simp add: pops_def butlast_append cong: sum.case_cong)
  from snoc show ?case
    by (simp add: step split: sum.splits)
qed

lemma rparen_loop_pops:
  "\<forall>q\<in>set ps. q \<noteq> OP_LPAREN \<Longrightarrow>
   rparen_loop fa out (ops @ OP_LPAREN # ps) =
     (case apply_ops fa (rev ps) out of
        Inl e \<Rightarrow> Inl e
      | Inr out' \<Rightarrow> Inr (out', ops @ [OP_LPAREN]))"
proof (induction ps arbitrary: out rule: rev_induct)
  case Nil
  show ?case by (simp add: rparen_loop.simps [of fa out "ops @ [OP_LPAREN]"])
next
  case (snoc q ps)
  then have step: "rparen_loop fa out (ops @ OP_LPAREN # ps @ [q]) =
      (case OutputStack_append fa (POp q) out of
         Inl e \<Rightarrow> Inl e
       | Inr out' \<Rightarrow> rparen_loop fa out' (ops @ OP_LPAREN # ps))"
    using rparen_loop.simps [of fa out "ops @ OP_LPAREN # ps @ [q]"]
    by (simp add: butlast_append cong: sum.case_cong)
  from snoc show ?case
    by (simp add: step split: sum.splits)
qed

lemma final_loop_pops:
  "\<forall>q\<in>set ps. q \<noteq> OP_LPAREN \<Longrightarrow> final_loop fa out ps = apply_ops fa (rev ps) out"
proof (induction ps arbitrary: out rule: rev_induct)
  case Nil
  show ?case by (simp add: final_loop.simps [of fa out "[]"])
next
  case (snoc q ps)
  then show ?case
    using final_loop.simps [of fa out "ps @ [q]"]
    by (simp split: sum.splits)
qed

lemma append_binary:
  "OutputStack_append fa (POp (op_of op)) (out @ [a, b]) =
     (case py_arith fa op a b of Inl e \<Rightarrow> Inl e | Inr r \<Rightarrow> Inr (out @ [r]))"
  by (cases op) (simp_all add: OutputStack_append_def butlast_append cong: sum.case_cong)

lemma append_unary:
  "OutputStack_append fa (POp OP_UNARY_MINUS) (out @ [b]) =
     (case py_arith fa Sub (IntV 0) b of Inl e \<Rightarrow> Inl e | Inr r \<Rightarrow> Inr (out @ [r]))"
  by (simp add: OutputStack_append_def cong: sum.case_cong)

lemma pend_error: "pend fa e = Inl err \<Longrightarrow> eval fa e = Inl err"
  by (induction e arbitrary: err) (auto split: sum.splits)

lemma pend_eval:
  "pend fa e = Inr (vs, ps) \<Longrightarrow>
   apply_ops fa (rev ps) (out @ vs) =
     (case eval fa e of Inl err \<Rightarrow> Inl err | Inr v \<Rightarrow> Inr (out @ [v]))"
proof (induction e arbitrary: vs ps out)
  case (Num ds)
  then show ?case by auto
next
  case (Neg a)
  then obtain ps' where p: "pend fa a = Inr (vs, ps')" and ps: "ps = OP_UNARY_MINUS # ps'"
    by (auto split: sum.splits)
  show ?case
    using Neg.IH [OF p, of out] ps
    by (auto simp: apply_ops_append append_unary split: sum.splits)
next
  case (Bin op l r)
  then obtain a vs' ps' where l: "eval fa l = Inr a" and p: "pend fa r = Inr (vs', ps')"
    and vs: "vs = a # vs'" and ps: "ps = op_of op # ps'"
    by (auto split: sum.splits)
  show ?case
    using Bin.IH(2) [OF p, of "out @ [a]"] l vs ps append_binary [of fa op out a]
    by (auto simp: apply_ops_append split: sum.splits)
next
  case (Paren e)
  then show ?case by (auto split: sum.splits)
next
  case (Pad m e n)
  then show ?case by simp
qed

lemma is_op_op_of [simp]: "is_op (op_of op)" "is_op OP_UNARY_MINUS"
  by (cases op; simp add: is_op_def ARITHMETIC_OPERATORS_def)+

lemma precedence_op_of [simp]: "precedence (op_of op) = binds op"
  by (cases op) simp_all

lemma pend_ops:
  "well_formed e \<Longrightarrow> pend fa e = Inr (vs, ps) \<Longrightarrow> \<forall>q\<in>set ps. is_op q \<and> level e \<le> precedence q"
proof (induction e arbitrary: vs ps)
  case (Bin op l r)
  then obtain vs' ps' where p: "pend fa r = Inr (vs', ps')" and ps: "ps = op_of op # ps'"
    by (auto split: sum.splits)
  from Bin.IH(2) [OF _ p] Bin.prems(1) have "\<forall>q\<in>set ps'. is_op q \<and> level r \<le> precedence q"
    by simp
  with Bin.prems(1) ps show ?case
    by (auto split: if_splits)
next
  case (Neg a)
  then obtain ps' where p: "pend fa a = Inr (vs, ps')" and ps: "ps = OP_UNARY_MINUS # ps'"
    by (auto split: sum.splits)
  from Neg.IH [OF _ p] Neg.prems(1) have "\<forall>q\<in>set ps'. is_op q \<and> level a \<le> precedence q"
    by simp
  with Neg.prems(1) ps show ?case by auto
qed (auto split: sum.splits)

lemma is_op_not_lparen: "is_op q \<Longrightarrow> q \<noteq> OP_LPAREN"
  by (auto simp: is_op_def ARITHMETIC_OPERATORS_def)

lemma run_tokens_append:
  "run_tokens fa (xs @ ys) st =
     (case run_tokens fa xs st of Inl e \<Rightarrow> Inl e | Inr st' \<Rightarrow> run_tokens fa ys st')"
  by (induction xs arbitrary: st) (simp_all split: sum.splits)

lemma for_body_number:
  "ds \<noteq> [] \<Longrightarrow> list_all isdecimal ds \<Longrightarrow>
   for_body fa (Token NUMBER ds) (out, ops) = Inr (out @ [IntV (decimal ds)], ops)"
  by (simp add: for_body_def Token_def py_int_def OutputStack_append_def)

lemma for_body_operator:
  "is_op q \<Longrightarrow>
   for_body fa (Token q s) (out, ops) =
     (case operator_loop fa q out ops of
        Inl e \<Rightarrow> Inl e
      | Inr (out', ops') \<Rightarrow> Inr (out', ops' @ [q]))"
  by (auto simp: for_body_def Token_def is_op_def ARITHMETIC_OPERATORS_def cong: sum.case_cong)

lemma for_body_lparen:
  "for_body fa (Token OP_LPAREN s) (out, ops) = Inr (out, ops @ [OP_LPAREN])"
  by (simp add: for_body_def Token_def ARITHMETIC_OPERATORS_def)

lemma for_body_rparen:
  "ops \<noteq> [] \<Longrightarrow>
   for_body fa (Token OP_RPAREN s) (out, ops) =
     (case rparen_loop fa out ops of
        Inl e \<Rightarrow> Inl e
      | Inr (out', ops') \<Rightarrow>
          if ops' = [] then Inl (IndexError ''list index out of range'')
          else if last ops' \<noteq> OP_LPAREN then Inl (ValueError ''mismatched parentheses'')
          else Inr (out', butlast ops'))"
  by (simp add: for_body_def Token_def ARITHMETIC_OPERATORS_def cong: sum.case_cong)

lemma admits_stop:
  "admits ops (Bin op l r) \<Longrightarrow> ops = [] \<or> last ops = OP_LPAREN \<or> \<not> pops (last ops) (op_of op)"
  by (cases op) (auto simp: admits_def pops_def)

lemma admits_left:
  "well_formed (Bin op l r) \<Longrightarrow> admits ops (Bin op l r) \<Longrightarrow> admits ops l"
  by (auto simp: admits_def split: if_splits)

lemma admits_right:
  "well_formed (Bin op l r) \<Longrightarrow> admits (ops @ [op_of op]) r"
  by (cases op) (auto simp: admits_def)

lemma left_pops:
  assumes "well_formed (Bin op l r)" and "is_op q" and "level l \<le> precedence q"
  shows "pops q (op_of op)"
  using assms
  by (cases op; cases q) (auto simp: pops_def is_op_def ARITHMETIC_OPERATORS_def)

lemma run_tokens_expr:
  "well_formed e \<Longrightarrow> admits ops e \<Longrightarrow>
   run_tokens fa (tokens_of e) (out, ops) =
     (case pend fa e of
        Inl err \<Rightarrow> Inl err
      | Inr (vs, ps) \<Rightarrow> Inr (out @ vs, ops @ ps))"
proof (induction e arbitrary: out ops)
  case (Num ds)
  then show ?case by (simp add: for_body_number)
next
  case (Neg a)
  from Neg.prems(2) have stop: "ops = [] \<or> last ops = OP_LPAREN \<or> \<not> pops (last ops) OP_UNARY_MINUS"
    by (auto simp: admits_def pops_def)
  have adm: "admits (ops @ [OP_UNARY_MINUS]) a"
    using Neg.prems(1) by (simp add: admits_def)
  show ?case
    using Neg.IH [OF _ adm, of out] Neg.prems(1)
    by (simp add: for_body_operator operator_loop_stop [OF stop] split: sum.splits)
next
  case (Bin op l r)
  have gl: "well_formed l" and gr: "well_formed r" using Bin.prems(1) by simp_all
  have L: "run_tokens fa (tokens_of l) (out, ops) =
      (case pend fa l of Inl err \<Rightarrow> Inl err | Inr (vs, ps) \<Rightarrow> Inr (out @ vs, ops @ ps))"
    using Bin.IH(1) [OF gl admits_left [OF Bin.prems]] .
  show ?case
  proof (cases "pend fa l")
    case (Inl err)
    with L pend_error [OF Inl] show ?thesis
      by (simp add: run_tokens_append)
  next
    case (Inr st)
    obtain vs ps where st: "st = (vs, ps)" by (cases st)
    with Inr have pl: "pend fa l = Inr (vs, ps)" by simp
    have allpop: "\<forall>q\<in>set ps. q \<noteq> OP_LPAREN \<and> pops q (op_of op)"
      using pend_ops [OF gl pl] left_pops [OF Bin.prems(1)] is_op_not_lparen by blast
    have loop: "operator_loop fa (op_of op) (out @ vs) (ops @ ps) =
        (case eval fa l of Inl err \<Rightarrow> Inl err | Inr v \<Rightarrow> Inr (out @ [v], ops))"
      using operator_loop_pops [OF allpop, of fa "out @ vs" ops] pend_eval [OF pl, of out]
        operator_loop_stop [OF admits_stop [OF Bin.prems(2)], of fa]
      by (simp split: sum.splits)
    show ?thesis
    proof (cases "eval fa l")
      case (Inl err)
      with L pl loop show ?thesis
        by (simp add: run_tokens_append for_body_operator)
    next
      case (Inr v)
      have R: "run_tokens fa (tokens_of r) (out @ [v], ops @ [op_of op]) =
        (case pend fa r of
           Inl err \<Rightarrow> Inl err
         | Inr (vs, ps) \<Rightarrow> Inr ((out @ [v]) @ vs, (ops @ [op_of op]) @ ps))"
        using Bin.IH(2) [OF gr admits_right [OF Bin.prems(1)]] .
      with L pl loop Inr show ?thesis
        by (simp add: run_tokens_append for_body_operator split: sum.splits)
    qed
  qed
next
  case (Paren e)
  have adm: "admits (ops @ [OP_LPAREN]) e" by (simp add: admits_def)
  have E: "run_tokens fa (tokens_of e) (out, ops @ [OP_LPAREN]) =
      (case pend fa e of
         Inl err \<Rightarrow> Inl err
       | Inr (vs, ps) \<Rightarrow> Inr (out @ vs, (ops @ [OP_LPAREN]) @ ps))"
    using Paren.IH [OF _ adm] Paren.prems(1) by simp
  show ?case
  proof (cases "pend fa e")
    case (Inl err)
    with E pend_error [OF Inl] show ?thesis
      by (simp add: run_tokens_append for_body_lparen)
  next
    case (Inr st)
    obtain vs ps where st: "st = (vs, ps)" by (cases st)
    with Inr have pe: "pend fa e = Inr (vs, ps)" by simp
    have nolp: "\<forall>q\<in>set ps. q \<noteq> OP_LPAREN"
      using pend_ops [OF _ pe] Paren.prems(1) is_op_not_lparen by auto
    have "for_body fa (Token OP_RPAREN '')'') (out @ vs, ops @ OP_LPAREN # ps) =
        (case eval fa e of Inl err \<Rightarrow> Inl err | Inr v \<Rightarrow> Inr (out @ [v], ops))"
      using rparen_loop_pops [OF nolp, of fa "out @ vs" ops] pend_eval [OF pe, of out]
      by (simp add: for_body_rparen split: sum.splits)
    with E pe show ?thesis
      by (simp add: run_tokens_append for_body_lparen split: sum.splits)
  qed
next
  case (Pad m e n)
  then show ?case by (simp add: admits_def)
qed

lemma calculate_pr:
  assumes "well_formed e"
  shows "calculate fa (pr e) = eval fa e"
proof -
  have lx: "scan_tokens [] None (pr e) = (tokens_of e, None)"
    using lex_pr [OF assms, of None "[]"] by simp
  have run: "run_tokens fa (tokens_of e) ([], []) =
      (case pend fa e of Inl err \<Rightarrow> Inl err | Inr (vs, ps) \<Rightarrow> Inr (vs, ps))"
    using run_tokens_expr [OF assms, of "[]" fa "[]"] by (simp add: admits_def cong: sum.case_cong)
  have fl: "for_loop fa (tokenizer_iter (Tokenizer (pr e))) ([], []) =
      (case pend fa e of Inl err \<Rightarrow> Inl err | Inr (vs, ps) \<Rightarrow> Inr (vs, ps))"
    using for_loop_lex [of "tokenizer_iter (Tokenizer (pr e))"
        "\<lparr>iter_index = 0, number_str = [], prev_token = None\<rparr>" fa "([], [])"] lx run
    by (simp add: tokenizer_iter_def Tokenizer_def rest_tokens_def ended_def split: sum.splits)
  show ?thesis
  proof (cases "pend fa e")
    case (Inl err)
    with fl pend_error [OF Inl] show ?thesis
      by (simp add: calculate_def final_stack_def)
  next
    case (Inr st)
    obtain vs ps where st: "st = (vs, ps)" by (cases st)
    with Inr have pe: "pend fa e = Inr (vs, ps)" by simp
    have nolp: "\<forall>q\<in>set ps. q \<noteq> OP_LPAREN"
      using pend_ops [OF assms pe] is_op_not_lparen by auto
    have "final_loop fa vs ps = (case eval fa e of Inl err \<Rightarrow> Inl err | Inr v \<Rightarrow> Inr [v])"
      using final_loop_pops [OF nolp, of fa vs] pend_eval [OF pe, of "[]"]
      by (simp cong: sum.case_cong)
    with fl pe show ?thesis
      by (simp add: calculate_def final_stack_def OutputStack_result_def split: sum.splits)
  qed
qed







lemma lex_space_step:
  "(if xs = [] then buf \<noteq> [] else isnumeric (last xs)) \<longrightarrow> \<not> (ys \<noteq> [] \<and> isnumeric (hd ys)) \<Longrightarrow>
   scan_tokens buf p (xs @ CHR '' '' # ys) = scan_tokens buf p (xs @ ys)"
proof (induction xs arbitrary: buf p)
  case Nil
  then show ?case
    using lex_flush [of ys buf p] by (cases "buf = []") auto
next
  case (Cons x xs)
  show ?case
  proof (cases "isnumeric x")
    case True
    with Cons.prems have "scan_tokens (buf @ [x]) p (xs @ CHR '' '' # ys) = scan_tokens (buf @ [x]) p (xs @ ys)"
      by (intro Cons.IH) (auto split: if_splits)
    with True show ?thesis by simp
  next
    case False
    with Cons.prems have "\<And>q. scan_tokens [] q (xs @ CHR '' '' # ys) = scan_tokens [] q (xs @ ys)"
      by (intro Cons.IH) (auto split: if_splits)
    with False show ?thesis by (simp split: option.splits)
  qed
qed

lemma calculate_lex: "calculate fa s = finish fa (scan_tokens [] None s)"
  using for_loop_lex [of "tokenizer_iter (Tokenizer s)"
        "\<lparr>iter_index = 0, number_str = [], prev_token = None\<rparr>" fa "([], [])"]
  by (simp add: calculate_def final_stack_def tokenizer_iter_def Tokenizer_def rest_tokens_def ended_def
           finish_def split: sum.splits option.splits prod.splits)

lemma calculate_space_step:
  assumes "\<not> splits_digits xs ys"
  shows "calculate fa (xs @ CHR '' '' # ys) = calculate fa (xs @ ys)"
proof -
  have "scan_tokens [] None (xs @ CHR '' '' # ys) = scan_tokens [] None (xs @ ys)"
    using assms by (intro lex_space_step) (auto simp: splits_digits_def)
  then show ?thesis by (simp add: calculate_lex)
qed

lemma respaced_calculate: "respaced e e' \<Longrightarrow> calculate fa e = calculate fa e'"
  by (induction rule: respaced.induct) (simp_all add: calculate_space_step)

lemma classify_accepted:
  "\<not> isnumeric c \<Longrightarrow> c \<noteq> CHR '' '' \<Longrightarrow> classify p c = None \<longleftrightarrow> \<not> accepted c"
  by (auto simp: classify_def accepted_def ARITHMETIC_OPERATORS_def)

lemma lex_error:
  "\<forall>x\<in>set xs. accepted x \<Longrightarrow> \<not> accepted c \<Longrightarrow>
   snd (scan_tokens buf p (xs @ c # ys)) = Some (ValueError [c])"
proof (induction xs arbitrary: buf p)
  case Nil
  then have "\<not> isnumeric c" "c \<noteq> CHR '' ''" by (auto simp: accepted_def)
  with Nil show ?case
    using classify_accepted [of c "flushed buf p"] by simp
next
  case (Cons x xs)
  then show ?case
    using classify_accepted [of x "flushed buf p"]
    by (auto simp: emit_def split: option.splits)
qed

lemma next_loop_stop:
  "next_loop e sc = (Inl StopIteration, sc') \<Longrightarrow> next_loop e sc' = (Inl StopIteration, sc')"
proof (induction e sc rule: next_loop.induct)
  case (1 e sc)
  show ?case
  proof (cases "iter_index sc < length e")
    case False
    with "1.prems" show ?thesis
      by (auto simp: next_loop_end split: if_splits)
  next
    case inside: True
    show ?thesis
    proof (cases "isnumeric (e ! iter_index sc)")
      case True
      with "1.IH"(1) "1.prems" inside show ?thesis
        by (simp add: next_loop_digit)
    next
      case nonnum: False
      show ?thesis
      proof (cases "number_str sc \<noteq> []")
        case True
        with "1.prems" inside nonnum show ?thesis
          by (simp add: next_loop_flush)
      next
        case emptybuf: False
        show ?thesis
        proof (cases "e ! iter_index sc = CHR '' ''")
          case True
          with "1.IH"(2) "1.prems" inside nonnum emptybuf show ?thesis
            by (simp add: next_loop_space)
        next
          case False
          with "1.prems" inside nonnum emptybuf show ?thesis
            by (auto simp: next_loop_symbol split: option.splits)
        qed
      qed
    qed
  qed
qed

lemma iterate_exhausted:
  "iterate tk = (toks, None, tk') \<Longrightarrow> tokenizer_next tk' = (Inl StopIteration, tk')"
proof (induction tk arbitrary: toks rule: iterate.induct)
  case (1 tk)
  obtain r tk1 where tn: "tokenizer_next tk = (r, tk1)" by (cases "tokenizer_next tk")
  show ?case
  proof (cases r)
    case (Inl err)
    with tn "1.prems" have err: "err = StopIteration" and tk': "tk' = tk1"
      by (auto simp: iterate.simps [of tk] split: if_splits)
    from tn Inl err show ?thesis
      unfolding tk'
      by (auto simp: tokenizer_next_def split: option.splits prod.splits dest: next_loop_stop)
  next
    case (Inr tok)
    with tn "1.prems" obtain toks1 where "iterate tk1 = (toks1, None, tk')"
      by (auto simp: iterate.simps [of tk] split: prod.splits)
    with "1.IH" [OF tn [symmetric] Inr] show ?thesis by simp
  qed
qed

lemma iterate_expr:
  "iterate (tokenizer_iter tk) = (toks, r, tk') \<Longrightarrow> expr tk' = expr tk \<and> cursor tk' \<noteq> None"
  using iterate_lex [of "tokenizer_iter tk" "\<lparr>iter_index = 0, number_str = [], prev_token = None\<rparr>"]
  by (auto simp: tokenizer_iter_def)
lemma two_literals:
  assumes "ds1 \<noteq> []" "list_all isdecimal ds1" "ds2 \<noteq> []" "list_all isdecimal ds2"
  shows "final_stack fa (ds1 @ CHR '' '' # ds2) = Inr [IntV (decimal ds1), IntV (decimal ds2)]"
proof -
  let ?s = "ds1 @ CHR '' '' # ds2"
  have n1: "list_all isnumeric ds1" and n2: "list_all isnumeric ds2"
    using assms by (auto simp: list_all_iff isdecimal_isnumeric)
  have "scan_tokens [] None ?s = scan_tokens ds1 None (CHR '' '' # ds2)"
    using lex_digits [OF n1, of "[]" None "CHR '' '' # ds2"] by simp
  also have "\<dots> = emit [Token NUMBER ds1] (scan_tokens [] (Some (Token NUMBER ds1)) (ds2 @ []))"
    using assms(1) by simp
  also have "scan_tokens [] (Some (Token NUMBER ds1)) (ds2 @ []) = ([Token NUMBER ds2], None)"
    using assms(3) by (simp only: lex_digits [OF n2]) simp
  finally have lx: "scan_tokens [] None ?s = ([Token NUMBER ds1, Token NUMBER ds2], None)"
    by simp
  have "for_loop fa (tokenizer_iter (Tokenizer ?s)) ([], []) =
      Inr ([IntV (decimal ds1), IntV (decimal ds2)], [])"
    using for_loop_lex [of "tokenizer_iter (Tokenizer ?s)"
        "\<lparr>iter_index = 0, number_str = [], prev_token = None\<rparr>" fa "([], [])"] lx assms
    by (simp add: tokenizer_iter_def Tokenizer_def rest_tokens_def ended_def for_body_number)
  then show ?thesis
    by (simp add: final_stack_def final_loop.simps [of fa _ "[]"])
qed

section \<open>The claims\<close>

subsection \<open>C1: the precedence ordering\<close>

text \<open>
  C1 (as amended).  For every well-formed expression \<open>calculate\<close> returns the value
  obtained under the ordering unary minus > exponentiation > multiplication and
  division > addition and subtraction, with \<open>^\<close> grouping to the right and the other
  binary operators to the left; in particular a unary minus before the base of an
  exponentiation binds tighter than \<open>^\<close>, so that \<open>-2^2\<close> is \<open>(-2)^2 = 4\<close>.  An error of
  the arithmetic (a division by zero) is the outcome of both sides.
\<close>

theorem calculate_unary_binds_tightest:
  "(well_formed e \<longrightarrow> calculate fa (pr e) = eval fa e) \<and>
   calculate fa ''-2^2'' = Inr (IntV 4)"
proof
  show "well_formed e \<longrightarrow> calculate fa (pr e) = eval fa e"
    by (simp add: calculate_pr)
  show "calculate fa ''-2^2'' = Inr (IntV 4)"
    using calculate_pr [of "Bin Pow (Neg (Num ''2'')) (Num ''2'')" fa]
    by (simp add: isdecimal_def decimal_def)
qed

text \<open>The theorem at \<open>-2^3*2+1\<close>, which is \<open>((-2)^3)*2+1 = -15\<close>.\<close>

theorem calculate_unary_binds_tightest_witness:
  "well_formed (Bin Add (Bin Mul (Bin Pow (Neg (Num ''2'')) (Num ''3'')) (Num ''2'')) (Num ''1'')) \<and>
   pr (Bin Add (Bin Mul (Bin Pow (Neg (Num ''2'')) (Num ''3'')) (Num ''2'')) (Num ''1'')) = ''-2^3*2+1'' \<and>
   calculate some_float ''-2^3*2+1'' = Inr (IntV (- 15))"
  using calculate_unary_binds_tightest
    [of "Bin Add (Bin Mul (Bin Pow (Neg (Num ''2'')) (Num ''3'')) (Num ''2'')) (Num ''1'')" some_float]
  by (simp add: isdecimal_def decimal_def)

text \<open>
  C1 as stated fails: with exponentiation above unary minus, \<open>-2^2\<close> is the tree
  \<open>-(2^2)\<close> of value \<open>-4\<close>, and \<open>calculate\<close> returns \<open>4\<close>.
\<close>

theorem minus_before_power_counterexample:
  "conventional (Neg (Bin Pow (Num ''2'') (Num ''2''))) \<and>
   pr (Neg (Bin Pow (Num ''2'') (Num ''2''))) = ''-2^2'' \<and>
   eval some_float (Neg (Bin Pow (Num ''2'') (Num ''2''))) = Inr (IntV (- 4)) \<and>
   calculate some_float ''-2^2'' = Inr (IntV 4)"
proof -
  have "calculate some_float ''-2^2'' = Inr (IntV 4)" by code_simp
  then show ?thesis by (simp add: isdecimal_def decimal_def)
qed

subsection \<open>C2: mismatched parentheses\<close>

text \<open>
  C2.  A right parenthesis that finds operators and no left parenthesis on the operator
  stack empties the stack and then reads \<open>operator_stack[-1]\<close>: \<open>1+2)\<close> ends in
  \<open>IndexError\<close>, not in \<open>ValueError("mismatched parentheses")\<close>.  The two other shapes,
  a right parenthesis on an empty operator stack and a left parenthesis never closed,
  raise the \<open>ValueError\<close>.
\<close>

theorem rparen_without_lparen:
  "calculate some_float ''1+2)'' = Inl (IndexError ''list index out of range'') \<and>
   calculate some_float '')'' = Inl (ValueError ''mismatched parentheses'') \<and>
   calculate some_float ''(1+2'' = Inl (ValueError ''mismatched parentheses'')"
  by code_simp

subsection \<open>C3: more than one value left on the operand stack\<close>

text \<open>
  C3 (as amended).  When the operand stack holds more than one value after all tokens
  are consumed and the operator stack is drained, \<open>calculate\<close> signals nothing and
  returns the value on top of the stack.  Two literals with a blank between them are
  such an input: both stay on the stack and the second is returned.
\<close>

theorem calculate_returns_top:
  "(final_stack fa s = Inr out \<and> 1 < length out \<longrightarrow> calculate fa s = Inr (last out)) \<and>
   (ds1 \<noteq> [] \<and> list_all isdecimal ds1 \<and> ds2 \<noteq> [] \<and> list_all isdecimal ds2 \<longrightarrow>
      final_stack fa (ds1 @ CHR '' '' # ds2) = Inr [IntV (decimal ds1), IntV (decimal ds2)] \<and>
      calculate fa (ds1 @ CHR '' '' # ds2) = Inr (IntV (decimal ds2)))"
proof (intro conjI impI)
  assume "final_stack fa s = Inr out \<and> 1 < length out"
  then show "calculate fa s = Inr (last out)"
    by (auto simp: calculate_def OutputStack_result_def)
next
  assume a: "ds1 \<noteq> [] \<and> list_all isdecimal ds1 \<and> ds2 \<noteq> [] \<and> list_all isdecimal ds2"
  then show fs: "final_stack fa (ds1 @ CHR '' '' # ds2) = Inr [IntV (decimal ds1), IntV (decimal ds2)]"
    by (simp add: two_literals)
  then show "calculate fa (ds1 @ CHR '' '' # ds2) = Inr (IntV (decimal ds2))"
    by (simp add: calculate_def OutputStack_result_def)
qed

text \<open>The theorem at \<open>4 5 6\<close>, which leaves three values, and at the literals \<open>10\<close> and \<open>7\<close>.\<close>

theorem calculate_returns_top_witness:
  "final_stack some_float ''4 5 6'' = Inr [IntV 4, IntV 5, IntV 6] \<and>
   1 < length [IntV 4, IntV 5, IntV 6 :: unit number] \<and>
   calculate some_float ''4 5 6'' = Inr (IntV 6) \<and>
   list_all isdecimal ''10'' \<and> list_all isdecimal ''7'' \<and>
   final_stack some_float ''10 7'' = Inr [IntV 10, IntV 7] \<and>
   calculate some_float ''10 7'' = Inr (IntV 7)"
proof -
  have fs: "final_stack some_float ''4 5 6'' = Inr [IntV 4, IntV 5, IntV 6]" by code_simp
  from calculate_returns_top [of some_float "''4 5 6''" "[IntV 4, IntV 5, IntV 6]" "''10''" "''7''"] fs
  show ?thesis by (simp add: isdecimal_def decimal_def)
qed

text \<open>C3 as stated fails: \<open>2 3\<close> leaves two values and \<open>calculate\<close> returns \<open>3\<close>.\<close>

theorem two_operands_counterexample:
  "final_stack some_float ''2 3'' = Inr [IntV 2, IntV 3] \<and>
   calculate some_float ''2 3'' = Inr (IntV 3)"
  by code_simp

subsection \<open>C4: conventional precedence and associativity\<close>




subsection \<open>C5: unary and binary minus\<close>

text \<open>
  C5.  At a scan position that holds \<open>-\<close>, with no digits waiting, \<open>__next__\<close> returns
  the unary-minus token if and only if no token has been emitted yet or the last token
  emitted is neither a number nor a right parenthesis, and the binary-minus token
  otherwise.  With digits waiting it first returns their number, and the call after
  that, whose last emitted token is then a number, returns the binary minus.
  Consequently \<open>1-(-2)\<close> is \<open>3\<close> and \<open>3*-2\<close> is \<open>-6\<close>.
\<close>

theorem minus_classification:
  "(cursor tk = Some sc \<and> iter_index sc < length (expr tk) \<and>
    expr tk ! iter_index sc = CHR ''-'' \<longrightarrow>
      (number_str sc = [] \<longrightarrow>
         fst (tokenizer_next tk) =
           Inr (Token (if prev_token sc = None \<or>
                          (\<exists>t. prev_token sc = Some t \<and> token_type t \<noteq> NUMBER \<and>
                               token_type t \<noteq> OP_RPAREN)
                       then OP_UNARY_MINUS else OP_MINUS) ''-'')) \<and>
      (number_str sc \<noteq> [] \<longrightarrow>
         fst (tokenizer_next tk) = Inr (Token NUMBER (number_str sc)) \<and>
         fst (tokenizer_next (snd (tokenizer_next tk))) = Inr (Token OP_MINUS ''-''))) \<and>
   calculate fa ''1-(-2)'' = Inr (IntV 3) \<and>
   calculate fa ''3*-2'' = Inr (IntV (- 6))"
proof (intro conjI impI)
  assume a: "cursor tk = Some sc \<and> iter_index sc < length (expr tk) \<and>
    expr tk ! iter_index sc = CHR ''-''"
  { assume "number_str sc = []"
    with a show "fst (tokenizer_next tk) =
           Inr (Token (if prev_token sc = None \<or>
                          (\<exists>t. prev_token sc = Some t \<and> token_type t \<noteq> NUMBER \<and>
                               token_type t \<noteq> OP_RPAREN)
                       then OP_UNARY_MINUS else OP_MINUS) ''-'')"
      by (auto simp: tokenizer_next_def next_loop_symbol classify_def unary_position_def
            ARITHMETIC_OPERATORS_def split: option.splits) }
  { assume b: "number_str sc \<noteq> []"
    with a show "fst (tokenizer_next tk) = Inr (Token NUMBER (number_str sc))"
      by (simp add: tokenizer_next_def next_loop_flush)
    from a b show "fst (tokenizer_next (snd (tokenizer_next tk))) = Inr (Token OP_MINUS ''-'')"
      by (simp add: tokenizer_next_def next_loop_flush next_loop_symbol classify_def
            unary_position_def ARITHMETIC_OPERATORS_def Token_def) }
next
  show "calculate fa ''1-(-2)'' = Inr (IntV 3)"
    using calculate_pr [of "Bin Sub (Num ''1'') (Paren (Neg (Num ''2'')))" fa]
    by (simp add: isdecimal_def decimal_def)
  show "calculate fa ''3*-2'' = Inr (IntV (- 6))"
    using calculate_pr [of "Bin Mul (Num ''3'') (Neg (Num ''2''))" fa]
    by (simp add: isdecimal_def decimal_def)
qed

text \<open>
  The theorem at the start of \<open>-1\<close>, where the minus is unary, and in \<open>1-1\<close> with the
  digit \<open>1\<close> waiting, where it is binary.
\<close>

theorem minus_classification_witness:
  "cursor (tokenizer_iter (Tokenizer ''-1'')) = Some \<lparr>iter_index = 0, number_str = [], prev_token = None\<rparr> \<and>
   (0::nat) < length ''-1'' \<and> ''-1'' ! 0 = CHR ''-'' \<and>
   fst (tokenizer_next (tokenizer_iter (Tokenizer ''-1''))) = Inr (Token OP_UNARY_MINUS ''-'') \<and>
   cursor \<lparr>expr = ''1-1'', cursor = Some \<lparr>iter_index = 1, number_str = ''1'', prev_token = None\<rparr>\<rparr>
     = Some \<lparr>iter_index = 1, number_str = ''1'', prev_token = None\<rparr> \<and>
   (1::nat) < length ''1-1'' \<and> ''1-1'' ! 1 = CHR ''-'' \<and>
   fst (tokenizer_next (snd (tokenizer_next
      \<lparr>expr = ''1-1'', cursor = Some \<lparr>iter_index = 1, number_str = ''1'', prev_token = None\<rparr>\<rparr>)))
     = Inr (Token OP_MINUS ''-'')"
  using minus_classification
      [where tk = "tokenizer_iter (Tokenizer ''-1'')"
         and sc = "\<lparr>iter_index = 0, number_str = [], prev_token = None\<rparr>"
         and fa = some_float]
    minus_classification
      [where tk = "\<lparr>expr = ''1-1'', cursor = Some \<lparr>iter_index = 1, number_str = ''1'', prev_token = None\<rparr>\<rparr>"
         and sc = "\<lparr>iter_index = 1, number_str = ''1'', prev_token = None\<rparr>"
         and fa = some_float]
  by (simp add: tokenizer_iter_def Tokenizer_def)

subsection \<open>C6: a character the tokenizer has no rule for\<close>

text \<open>
  C6 (as amended).  When the text contains a character that is not numeric, not a
  blank, not an operator symbol and not a parenthesis, the tokenizer stops at the first
  such character with a \<open>ValueError\<close> whose only argument is that character, and
  \<open>calculate\<close> returns no value: it raises that error unless a token before the
  character already made it raise another.
\<close>

theorem lex_error_stops:
  "list_all accepted xs \<and> \<not> accepted c \<longrightarrow>
   (\<exists>toks tk'.
      iterate (tokenizer_iter (Tokenizer (xs @ c # ys))) = (toks, Some (ValueError [c]), tk') \<and>
      calculate fa (xs @ c # ys) =
        (case run_tokens fa toks ([], []) of
           Inl e \<Rightarrow> Inl e
         | Inr st \<Rightarrow> Inl (ValueError [c])))"
proof
  assume a: "list_all accepted xs \<and> \<not> accepted c"
  let ?s = "xs @ c # ys"
  let ?lx = "scan_tokens [] None ?s"
  from a have err: "snd ?lx = Some (ValueError [c])" by (simp add: lex_error list_all_iff)
  obtain sc' where "iterate (tokenizer_iter (Tokenizer ?s)) =
      (fst ?lx, snd ?lx, (tokenizer_iter (Tokenizer ?s))\<lparr>cursor := Some sc'\<rparr>)"
    using iterate_lex [of "tokenizer_iter (Tokenizer ?s)"
        "\<lparr>iter_index = 0, number_str = [], prev_token = None\<rparr>"]
    by (auto simp: tokenizer_iter_def Tokenizer_def rest_tokens_def)
  moreover have "calculate fa ?s =
      (case run_tokens fa (fst ?lx) ([], []) of Inl e \<Rightarrow> Inl e | Inr st \<Rightarrow> Inl (ValueError [c]))"
    using err by (simp add: calculate_lex finish_def cong: sum.case_cong)
  ultimately show "\<exists>toks tk'.
      iterate (tokenizer_iter (Tokenizer ?s)) = (toks, Some (ValueError [c]), tk') \<and>
      calculate fa ?s =
        (case run_tokens fa toks ([], []) of Inl e \<Rightarrow> Inl e | Inr st \<Rightarrow> Inl (ValueError [c]))"
    using err by auto
qed

theorem lex_error_stops_witness:
  "list_all accepted ''1+'' \<and> \<not> accepted (CHR ''a'') \<and>
   (\<exists>toks tk'.
      iterate (tokenizer_iter (Tokenizer ''1+a2'')) = (toks, Some (ValueError ''a''), tk') \<and>
      calculate some_float ''1+a2'' =
        (case run_tokens some_float toks ([], []) of
           Inl e \<Rightarrow> Inl e
         | Inr st \<Rightarrow> Inl (ValueError ''a'')))"
  using lex_error_stops [of "''1+''" "CHR ''a''" "''2''" some_float]
  by (simp add: accepted_def isnumeric_def)

text \<open>
  C6 as stated fails.  The error does not carry the position: \<open>a\<close> at index 0 and at
  index 1 raise the same \<open>ValueError('a')\<close>.  Evaluation can fail before the scan
  reaches the character: \<open>)a\<close> raises the error of the parenthesis.  And the fraction
  one half (code point 189), which is numeric and no decimal digit, passes the
  tokenizer and fails in \<open>int\<close>.
\<close>

theorem lex_error_position_counterexample:
  "fst (snd (iterate (tokenizer_iter (Tokenizer ''a'')))) = Some (ValueError ''a'') \<and>
   fst (snd (iterate (tokenizer_iter (Tokenizer '' a'')))) = Some (ValueError ''a'') \<and>
   calculate some_float ''a'' = Inl (ValueError ''a'') \<and>
   calculate some_float '' a'' = Inl (ValueError ''a'') \<and>
   calculate some_float '')a'' = Inl (ValueError ''mismatched parentheses'') \<and>
   calculate some_float [CHR 0xBD] =
     Inl (ValueError (''invalid literal for int() with base 10: '' @ [CHR 0x27, CHR 0xBD, CHR 0x27]))"
  by code_simp

subsection \<open>C7: a second pass over the same tokenizer\<close>

text \<open>
  C7 (as amended).  After the token sequence of a tokenizer is exhausted, \<open>__next__\<close>
  on the same instance keeps raising \<open>StopIteration\<close>, and \<open>__iter__\<close> on the same
  instance resets the scan: a second iteration produces the same tokens, ends the same
  way and leaves the same object as the first.
\<close>

theorem tokenizer_restarts:
  "iterate (tokenizer_iter (Tokenizer s)) = (toks, r, tk') \<longrightarrow>
   iterate (tokenizer_iter tk') = (toks, r, tk') \<and>
   (r = None \<longrightarrow> tokenizer_next tk' = (Inl StopIteration, tk'))"
proof
  assume it: "iterate (tokenizer_iter (Tokenizer s)) = (toks, r, tk')"
  from iterate_expr [OF it] have "expr tk' = s" by (simp add: Tokenizer_def)
  then have "tokenizer_iter tk' = tokenizer_iter (Tokenizer s)"
    by (cases tk') (simp add: tokenizer_iter_def Tokenizer_def)
  with it iterate_exhausted [of "tokenizer_iter (Tokenizer s)" toks tk']
  show "iterate (tokenizer_iter tk') = (toks, r, tk') \<and>
   (r = None \<longrightarrow> tokenizer_next tk' = (Inl StopIteration, tk'))"
    by auto
qed

theorem tokenizer_restarts_witness:
  "iterate (tokenizer_iter (Tokenizer ''2-1'')) =
     ([Token NUMBER ''2'', Token OP_MINUS ''-'', Token NUMBER ''1''], None,
      \<lparr>expr = ''2-1'',
       cursor = Some \<lparr>iter_index = 3, number_str = [], prev_token = Some (Token NUMBER ''1'')\<rparr>\<rparr>) \<and>
   iterate (tokenizer_iter
      \<lparr>expr = ''2-1'',
       cursor = Some \<lparr>iter_index = 3, number_str = [], prev_token = Some (Token NUMBER ''1'')\<rparr>\<rparr>) =
     ([Token NUMBER ''2'', Token OP_MINUS ''-'', Token NUMBER ''1''], None,
      \<lparr>expr = ''2-1'',
       cursor = Some \<lparr>iter_index = 3, number_str = [], prev_token = Some (Token NUMBER ''1'')\<rparr>\<rparr>)"
proof -
  have it: "iterate (tokenizer_iter (Tokenizer ''2-1'')) =
     ([Token NUMBER ''2'', Token OP_MINUS ''-'', Token NUMBER ''1''], None,
      \<lparr>expr = ''2-1'',
       cursor = Some \<lparr>iter_index = 3, number_str = [], prev_token = Some (Token NUMBER ''1'')\<rparr>\<rparr>)"
    by code_simp
  from tokenizer_restarts [of "''2-1''"] it show ?thesis by simp
qed

text \<open>
  C7 as stated fails: the tokenizer over \<open>1+1\<close>, iterated to exhaustion, produces its
  three tokens again when \<open>__iter__\<close> is called on it once more.
\<close>

theorem tokenizer_restarts_counterexample:
  "fst (snd (iterate (tokenizer_iter (Tokenizer ''1+1'')))) = None \<and>
   fst (iterate (tokenizer_iter (snd (snd (iterate (tokenizer_iter (Tokenizer ''1+1''))))))) =
     [Token NUMBER ''1'', Token OP_PLUS ''+'', Token NUMBER ''1'']"
  by code_simp

subsection \<open>C9: blanks around tokens\<close>

text \<open>
  C9 (as amended).  For every text \<open>e\<close> and every text \<open>e'\<close> obtained from it by
  inserting or removing blanks, none of them placed between two numeric characters nor
  taken from between two, \<open>calculate\<close> has the same outcome on both.
\<close>

theorem respaced_same_outcome:
  "respaced e e' \<Longrightarrow> calculate fa e = calculate fa e'"
  by (rule respaced_calculate)

theorem respaced_same_outcome_witness:
  "respaced ''1+1'' ''1 + 1'' \<and> calculate some_float ''1+1'' = calculate some_float ''1 + 1''"
proof -
  have 0: "respaced ''1+1'' (''1'' @ ''+1'')" by (simp add: respaced.same)
  have "respaced ''1+1'' (''1'' @ CHR '' '' # ''+1'')"
    by (rule respaced.inserted [OF 0]) (simp add: splits_digits_def isnumeric_def)
  then have 1: "respaced ''1+1'' (''1 +'' @ ''1'')" by simp
  have "respaced ''1+1'' (''1 +'' @ CHR '' '' # ''1'')"
    by (rule respaced.inserted [OF 1]) (simp add: splits_digits_def isnumeric_def)
  then have 2: "respaced ''1+1'' ''1 + 1''" by simp
  from respaced_same_outcome [OF 2] 2 show ?thesis by simp
qed

text \<open>
  C9 as stated fails: removing the blank of \<open>1 2\<close> splits no digit run and changes the
  result from \<open>2\<close> to \<open>12\<close>.
\<close>

theorem joined_digits_counterexample:
  "calculate some_float ''1 2'' = Inr (IntV 2) \<and> calculate some_float ''12'' = Inr (IntV 12)"
  by code_simp

subsection \<open>C10: the empty text and texts of blanks\<close>



end
